theory Spec2Isabelle
  imports Main "HOL-Library.Sublist"
begin

section \<open>Save widgets: the base class \<open>OWSaveBase\<close>\<close>

text \<open>
  A shallow embedding of \<^verbatim>\<open>Orange/widgets/utils/save/owsavebase.py\<close>.
  Python strings are modelled as \<^typ>\<open>string\<close>; every character the code inspects
  (\<open>.\<close>, \<open>/\<close>, \<open>(\<close>, \<open>)\<close>, \<open>*\<close> and the line break) is ASCII, so nothing
  depends on how other characters are encoded.  Exceptions are values of the type
  \<open>exc\<close>; a method that can raise returns a sum or an \<open>outcome\<close>.
\<close>

subsection \<open>Exceptions\<close>

text \<open>
  \<open>IOError m\<close> stands for any instance of Python's \<^verbatim>\<open>IOError\<close> (an alias of
  \<^verbatim>\<open>OSError\<close>, so its subclasses are included) whose \<^verbatim>\<open>str()\<close> is \<open>m\<close>.
  \<open>OtherException c m\<close> is an exception of a class \<open>c\<close> that is not a subclass of
  \<^verbatim>\<open>IOError\<close>.
\<close>

datatype exc =
    AttributeError
  | KeyError string
  | IOError string
  | OtherException string string

subsection \<open>The regular expression of \<open>_extension_from_filter\<close>\<close>

text \<open>
  \<^verbatim>\<open>re.search(r".*\(\*?(\..*)\)$", selected_filter).group(1)\<close>

  The matcher below follows Python's backtracking semantics piece by piece.
  Without flags, \<^verbatim>\<open>.\<close> matches every character but the line break, a starred
  item is greedy (the longest repetition is tried first, then shorter ones), and
  \<^verbatim>\<open>$\<close> matches at the end of the string or just before a line break that is the
  last character.
\<close>

definition newline :: char where
  "newline = CHR 0x0A"

text \<open>\<^verbatim>\<open>\)$\<close> on the rest of the string.\<close>

definition close_end :: "string \<Rightarrow> bool" where
  "close_end r \<longleftrightarrow> r = [CHR '')''] \<or> r = [CHR '')'', newline]"

text \<open>
  Greedy \<^verbatim>\<open>.*\<close> followed by the continuation \<open>k\<close>: \<open>acc\<close> is the text the star
  has consumed so far.  The longer repetition is tried first; when the rest of the
  pattern fails there, the matcher backtracks to the shorter one.
\<close>

fun dot_star :: "(string \<Rightarrow> string \<Rightarrow> 'a option) \<Rightarrow> string \<Rightarrow> string \<Rightarrow> 'a option" where
  "dot_star k acc [] = k acc []"
| "dot_star k acc (c # cs) =
     (if c = newline then k acc (c # cs)
      else (case dot_star k (acc @ [c]) cs of
              Some r \<Rightarrow> Some r
            | None \<Rightarrow> k acc (c # cs)))"

text \<open>\<^verbatim>\<open>(\..*)\)$\<close>: the captured group, then the closing parenthesis at the end.\<close>

definition group_close :: "string \<Rightarrow> string option" where
  "group_close r =
     (case r of
        [] \<Rightarrow> None
      | c # cs \<Rightarrow>
          if c = CHR ''.''
          then dot_star (\<lambda>acc rest. if close_end rest then Some (CHR ''.'' # acc) else None) [] cs
          else None)"

text \<open>\<^verbatim>\<open>\(\*?\<close> and the rest: the optional star is tried first, then its absence.\<close>

definition paren_star :: "string \<Rightarrow> string option" where
  "paren_star r =
     (case r of
        [] \<Rightarrow> None
      | c # cs \<Rightarrow>
          if c = CHR ''(''
          then (case (case cs of
                        [] \<Rightarrow> None
                      | d # ds \<Rightarrow> if d = CHR ''*'' then group_close ds else None) of
                  Some g \<Rightarrow> Some g
                | None \<Rightarrow> group_close cs)
          else None)"

text \<open>The whole pattern, anchored at the start of \<open>s\<close>.\<close>

definition match_here :: "string \<Rightarrow> string option" where
  "match_here s = dot_star (\<lambda>acc rest. paren_star rest) [] s"

text \<open>
  \<^verbatim>\<open>re.search\<close> tries every start position from the left (the end of the string
  included) and returns the first match; the result is the text of group 1.
\<close>

fun re_search :: "string \<Rightarrow> string option" where
  "re_search s =
     (case match_here s of
        Some g \<Rightarrow> Some g
      | None \<Rightarrow> (case s of [] \<Rightarrow> None | c # cs \<Rightarrow> re_search cs))"

declare re_search.simps [simp del]

text \<open>
  When nothing matches, \<^verbatim>\<open>re.search\<close> returns \<^verbatim>\<open>None\<close> and \<^verbatim>\<open>.group(1)\<close>
  raises \<^verbatim>\<open>AttributeError\<close>.
\<close>

definition extension_from_filter :: "string \<Rightarrow> exc + string" where
  "extension_from_filter selected_filter =
     (case re_search selected_filter of
        None \<Rightarrow> Inl AttributeError
      | Some g \<Rightarrow> Inr g)"


subsection \<open>Library functions on strings and paths\<close>

text \<open>
  \<^verbatim>\<open>str.split(sep)\<close> with a one-character separator: the string is cut at every
  occurrence of the separator, empty pieces are kept, and the result is never empty.
\<close>

fun str_split :: "string \<Rightarrow> char \<Rightarrow> string list" where
  "str_split [] sep = [[]]"
| "str_split (c # cs) sep =
     (if c = sep then [] # str_split cs sep
      else (case str_split cs sep of
              [] \<Rightarrow> [[c]]
            | w # ws \<Rightarrow> (c # w) # ws))"

text \<open>
  \<^verbatim>\<open>str.rfind(c)\<close>: the highest index at which \<open>c\<close> occurs, or \<open>-1\<close>.  The scan
  runs from the end of the string; \<open>rfind_from p c n\<close> looks below index \<open>n\<close>.
\<close>

fun rfind_from :: "string \<Rightarrow> char \<Rightarrow> nat \<Rightarrow> int" where
  "rfind_from p c 0 = - 1"
| "rfind_from p c (Suc i) = (if p ! i = c then int i else rfind_from p c i)"

definition rfind :: "string \<Rightarrow> char \<Rightarrow> int" where
  "rfind p c = rfind_from p c (length p)"

text \<open>
  \<^verbatim>\<open>os.path.splitext\<close> of \<^verbatim>\<open>posixpath\<close> (the module is \<^verbatim>\<open>os.path\<close> on Linux and
  macOS), that is \<^verbatim>\<open>genericpath._splitext(p, '/', None, '.')\<close>:

  \<^verbatim>\<open>
    sepIndex = p.rfind(sep)
    dotIndex = p.rfind(extsep)
    if dotIndex > sepIndex:
        # skip all leading dots
        filenameIndex = sepIndex + 1
        while filenameIndex < dotIndex:
            if p[filenameIndex:filenameIndex+1] != extsep:
                return p[:dotIndex], p[dotIndex:]
            filenameIndex += 1
    return p, p[:0]
  \<close>
\<close>

function splitext_loop :: "string \<Rightarrow> int \<Rightarrow> int \<Rightarrow> string \<times> string" where
  "splitext_loop p filenameIndex dotIndex =
     (if filenameIndex < dotIndex
      then (if take 1 (drop (nat filenameIndex) p) \<noteq> [CHR ''.'']
            then (take (nat dotIndex) p, drop (nat dotIndex) p)
            else splitext_loop p (filenameIndex + 1) dotIndex)
      else (p, []))"
  by pat_completeness auto
termination
  by (relation "measure (\<lambda>(p, filenameIndex, dotIndex). nat (dotIndex - filenameIndex))") auto

declare splitext_loop.simps [simp del]

definition splitext :: "string \<Rightarrow> string \<times> string" where
  "splitext p =
     (let sepIndex = rfind p CHR ''/'';
          dotIndex = rfind p CHR ''.''
      in if dotIndex > sepIndex then splitext_loop p (sepIndex + 1) dotIndex else (p, []))"

text \<open>
  \<^verbatim>\<open>os.path.split\<close> of \<^verbatim>\<open>posixpath\<close>:

  \<^verbatim>\<open>
    i = p.rfind(sep) + 1
    head, tail = p[:i], p[i:]
    if head and head != sep*len(head):
        head = head.rstrip(sep)
    return head, tail
  \<close>
\<close>

definition rstrip :: "string \<Rightarrow> char \<Rightarrow> string" where
  "rstrip s c = rev (dropWhile (\<lambda>x. x = c) (rev s))"

definition path_split :: "string \<Rightarrow> string \<times> string" where
  "path_split p =
     (let i = nat (rfind p CHR ''/'' + 1);
          head = take i p;
          tail = drop i p
      in if head \<noteq> [] \<and> head \<noteq> replicate (length head) CHR ''/''
         then (rstrip head CHR ''/'', tail)
         else (head, tail))"

subsection \<open>\<open>_replace_extension\<close>\<close>

text \<open>
  The class attribute \<^verbatim>\<open>filters\<close> is a list of filter labels or a dictionary whose
  keys are the labels; iterating either yields the labels in order, so
  \<open>_replace_extension\<close> sees a list of labels.

  The first half of the method collects the known extensions:

  \<^verbatim>\<open>
    known_extensions = set()
    for filt in cls.filters:
        known_extensions |= set(cls._extension_from_filter(filt).split("."))
    if "" in known_extensions:
        known_extensions.remove("")
  \<close>

  The loop stops with the exception of the first label that does not parse.
\<close>

fun collect_extensions :: "string list \<Rightarrow> string set \<Rightarrow> exc + string set" where
  "collect_extensions [] known = Inr known"
| "collect_extensions (filt # filters) known =
     (case extension_from_filter filt of
        Inl e \<Rightarrow> Inl e
      | Inr ext \<Rightarrow> collect_extensions filters (known \<union> set (str_split ext CHR ''.'')))"

definition known_extensions :: "string list \<Rightarrow> exc + string set" where
  "known_extensions filters =
     (case collect_extensions filters {} of
        Inl e \<Rightarrow> Inl e
      | Inr known \<Rightarrow> Inr (if [] \<in> known then known - {[]} else known))"

text \<open>
  The second half is the loop

  \<^verbatim>\<open>
    while True:
        base, ext = os.path.splitext(filename)
        if ext[1:] not in known_extensions:
            break
        filename = base
    return filename + extension
  \<close>

  As written the loop has no bound, so it is a partial function: \<open>None\<close> means that
  it never leaves the loop, \<open>Some filename\<close> is the file name at the \<^verbatim>\<open>break\<close>.
\<close>

partial_function (option) replace_extension_loop :: "string set \<Rightarrow> string \<Rightarrow> string option" where
  "replace_extension_loop known filename =
     (case splitext filename of
        (base, ext) \<Rightarrow>
          if drop 1 ext \<notin> known then Some filename
          else replace_extension_loop known base)"

declare replace_extension_loop.simps [code]

text \<open>
  The result of \<open>_replace_extension\<close>: \<open>None\<close> when the loop does not end,
  \<open>Some (Inl e)\<close> when a filter label raises \<open>e\<close>, \<open>Some (Inr name)\<close> when the
  method returns \<open>name\<close>.
\<close>

definition replace_extension :: "string list \<Rightarrow> string \<Rightarrow> string \<Rightarrow> (exc + string) option" where
  "replace_extension filters filename extension =
     (case known_extensions filters of
        Inl e \<Rightarrow> Some (Inl e)
      | Inr known \<Rightarrow>
          (case replace_extension_loop known filename of
             None \<Rightarrow> None
           | Some stripped \<Rightarrow> Some (Inr (stripped @ extension))))"


subsection \<open>The widget's state\<close>

text \<open>
  A message group of the widget framework (\<^verbatim>\<open>Error\<close>, \<^verbatim>\<open>Warning\<close>,
  \<^verbatim>\<open>Information\<close>) maps each message that is shown to its text.  The base class
  declares \<^verbatim>\<open>Information.empty_input\<close>, \<^verbatim>\<open>Error.no_file_name\<close> and
  \<^verbatim>\<open>Error.general_error\<close>; \<open>other_msg\<close> stands for the messages of the framework
  and of derived classes.
\<close>

datatype msg = empty_input | no_file_name | general_error | other_msg string

type_synonym msg_group = "msg \<rightharpoonup> string"

text \<open>
  Calling a message, \<^verbatim>\<open>msg(*args, shown=...)\<close>, shows it with its formatted text
  when \<^verbatim>\<open>shown\<close> is true and hides it otherwise; \<^verbatim>\<open>msg.clear()\<close> hides it.
\<close>

definition msg_call :: "msg_group \<Rightarrow> msg \<Rightarrow> string \<Rightarrow> bool \<Rightarrow> msg_group" where
  "msg_call g m formatted shown = (if shown then g(m \<mapsto> formatted) else g(m := None))"

definition msg_clear :: "msg_group \<Rightarrow> msg \<Rightarrow> msg_group" where
  "msg_clear g m = g(m := None)"

text \<open>
  The fields of the widget: the four settings, the input \<^verbatim>\<open>data\<close> (\<open>None\<close> is
  Python's \<^verbatim>\<open>None\<close>), the three message groups and the text of the Save button.
  \<open>write_calls\<close> is the trace of the calls of a writer's \<^verbatim>\<open>write\<close> method, each with
  the filter whose writer was called, the file name and the data.
\<close>

record 'd OWSaveBase =
  last_dir :: string
  filter' :: string
  filename :: string
  auto_save :: bool
  data :: "'d option"
  Error :: msg_group
  Warning :: msg_group
  Information :: msg_group
  bt_save :: string
  write_calls :: "(string \<times> string \<times> 'd option) list"

text \<open>
  A writer's \<^verbatim>\<open>write(filename, data)\<close> returns (\<open>None\<close>) or raises (\<open>Some e\<close>).
  The class attribute \<^verbatim>\<open>filters\<close> is here the dictionary from filter labels to
  writers, as the default \<^verbatim>\<open>do_save\<close> requires.
\<close>

type_synonym 'd writer = "string \<Rightarrow> 'd option \<Rightarrow> exc option"

text \<open>A method either returns or raises; both leave a state of the widget behind.\<close>

datatype 'd outcome = Return "'d OWSaveBase" | Raise exc "'d OWSaveBase"

fun state_of :: "'d outcome \<Rightarrow> 'd OWSaveBase" where
  "state_of (Return self) = self"
| "state_of (Raise e self) = self"

text \<open>
  The answer of the file dialog: \<^verbatim>\<open>dlg.exec()\<close> is \<^verbatim>\<open>Rejected\<close>, or the dialog was
  accepted with \<^verbatim>\<open>dlg.selectedFiles()[0]\<close> and \<^verbatim>\<open>dlg.selectedNameFilter()\<close>.
\<close>

datatype dialog = Rejected | Accepted string string

subsection \<open>The methods\<close>

text \<open>\<^verbatim>\<open>return self.filters[self.filter]\<close>\<close>

definition writer :: "(string \<times> 'd writer) list \<Rightarrow> 'd OWSaveBase \<Rightarrow> exc + 'd writer" where
  "writer filters self =
     (case map_of filters (filter' self) of
        None \<Rightarrow> Inl (KeyError (filter' self))
      | Some w \<Rightarrow> Inr w)"

text \<open>\<^verbatim>\<open>self.writer.write(self.filename, self.data)\<close>\<close>

definition do_save :: "(string \<times> 'd writer) list \<Rightarrow> 'd OWSaveBase \<Rightarrow> 'd outcome" where
  "do_save filters self =
     (case writer filters self of
        Inl e \<Rightarrow> Raise e self
      | Inr w \<Rightarrow>
          (let self' = self\<lparr>write_calls :=
                         write_calls self @ [(filter' self, filename self, data self)]\<rparr>
           in case w (filename self) (data self) of
                None \<Rightarrow> Return self'
              | Some e \<Rightarrow> Raise e self'))"

text \<open>
  \<^verbatim>\<open>
    self.Error.general_error.clear()
    if self.data is None or not self.filename:
        return
    try:
        self.do_save()
    except IOError as err_value:
        self.Error.general_error(str(err_value))
  \<close>
\<close>

definition try_save :: "(string \<times> 'd writer) list \<Rightarrow> 'd OWSaveBase \<Rightarrow> 'd outcome" where
  "try_save filters self =
     (let self = self\<lparr>Error := msg_clear (Error self) general_error\<rparr>
      in if data self = None \<or> filename self = [] then Return self
         else (case do_save filters self of
                 Return self' \<Rightarrow> Return self'
               | Raise e self' \<Rightarrow>
                   (case e of
                      IOError err_value \<Rightarrow>
                        Return (self'\<lparr>Error := msg_call (Error self') general_error err_value True\<rparr>)
                    | _ \<Rightarrow> Raise e self')))"

text \<open>
  \<^verbatim>\<open>
    self.Error.no_file_name(shown=not self.filename and self.auto_save)
    self.Information.empty_input(shown=self.filename and self.data is None)
  \<close>
\<close>

definition update_messages :: "'d OWSaveBase \<Rightarrow> 'd OWSaveBase" where
  "update_messages self =
     (let self = self\<lparr>Error := msg_call (Error self) no_file_name ''File name is not set.''
                                (filename self = [] \<and> auto_save self)\<rparr>
      in self\<lparr>Information := msg_call (Information self) empty_input
                                ''Empty input; nothing was saved.''
                                (filename self \<noteq> [] \<and> data self = None)\<rparr>)"

text \<open>The default \<^verbatim>\<open>update_status\<close> does nothing.\<close>

definition update_status :: "'d OWSaveBase \<Rightarrow> 'd OWSaveBase" where
  "update_status self = self"

text \<open>
  \<^verbatim>\<open>get_save_filename\<close> of Linux and the unknown platforms:

  \<^verbatim>\<open>
    if dlg.exec() == QFileDialog.Rejected:
        return "", ""
    else:
        return dlg.selectedFiles()[0], dlg.selectedNameFilter()
  \<close>
\<close>

definition get_save_filename :: "dialog \<Rightarrow> string \<times> string" where
  "get_save_filename dlg =
     (case dlg of
        Rejected \<Rightarrow> ([], [])
      | Accepted selected_file selected_filter \<Rightarrow> (selected_file, selected_filter))"

text \<open>
  \<^verbatim>\<open>
    filename, selected_filter = self.get_save_filename()
    if not filename:
        return
    self.filename = filename
    self.filter = selected_filter
    self.last_dir = os.path.split(self.filename)[0]
    self.bt_save.setText(f"Save as {os.path.split(filename)[1]}")
    self.update_messages()
    self._try_save()
  \<close>
\<close>

definition save_file_as :: "(string \<times> 'd writer) list \<Rightarrow> dialog \<Rightarrow> 'd OWSaveBase \<Rightarrow> 'd outcome" where
  "save_file_as filters dlg self =
     (case get_save_filename dlg of
        (new_filename, selected_filter) \<Rightarrow>
          if new_filename = [] then Return self
          else (let self = self\<lparr>filename := new_filename\<rparr>;
                    self = self\<lparr>filter' := selected_filter\<rparr>;
                    self = self\<lparr>last_dir := fst (path_split (filename self))\<rparr>;
                    self = self\<lparr>bt_save := ''Save as '' @ snd (path_split new_filename)\<rparr>;
                    self = update_messages self
                in try_save filters self))"

text \<open>
  \<^verbatim>\<open>
    if not self.filename:
        self.save_file_as()
    else:
        self._try_save()
  \<close>
\<close>

definition save_file :: "(string \<times> 'd writer) list \<Rightarrow> dialog \<Rightarrow> 'd OWSaveBase \<Rightarrow> 'd outcome" where
  "save_file filters dlg self =
     (if filename self = [] then save_file_as filters dlg self
      else try_save filters self)"

text \<open>
  \<^verbatim>\<open>
    self.Error.clear()
    self.Warning.clear()
    self.Information.clear()
    self.update_messages()
    self.update_status()
    if self.auto_save and self.filename:
        self.save_file()
  \<close>
  The signal handler has stored the new input in \<^verbatim>\<open>data\<close> before the call.
\<close>

definition on_new_input :: "(string \<times> 'd writer) list \<Rightarrow> dialog \<Rightarrow> 'd OWSaveBase \<Rightarrow> 'd outcome" where
  "on_new_input filters dlg self =
     (let self = self\<lparr>Error := Map.empty\<rparr>;
          self = self\<lparr>Warning := Map.empty\<rparr>;
          self = self\<lparr>Information := Map.empty\<rparr>;
          self = update_messages self;
          self = update_status self
      in if auto_save self \<and> filename self \<noteq> [] then save_file filters dlg self
         else Return self)"


subsection \<open>Example registries and widgets\<close>

text \<open>
  The concrete inputs at which the theorems below are instantiated: a registry with a
  plain and a compressed tab format, a freshly constructed widget, a registry with one
  writer, and a writer that raises.
\<close>

definition tab_filters :: "string list" where
  "tab_filters = [''Tab-separated values (*.tab)'', ''Compressed Tab-separated values (*.tab.gz)'']"

definition widget0 :: "nat OWSaveBase" where
  "widget0 = \<lparr>last_dir = [], filter' = ''Tab-separated values (*.tab)'', filename = [],
      auto_save = False, data = None, Error = Map.empty, Warning = Map.empty,
      Information = Map.empty, bt_save = ''Save'', write_calls = []\<rparr>"

definition registry :: "nat writer \<Rightarrow> (string \<times> nat writer) list" where
  "registry w = [(''Tab-separated values (*.tab)'', w)]"

definition raising :: "exc \<Rightarrow> nat writer" where
  "raising e = (\<lambda>filename data. Some e)"

section \<open>Properties of \<open>_extension_from_filter\<close>\<close>

subsection \<open>The greedy star\<close>

lemma dot_star_None_iff:
  "dot_star k acc s = None \<longleftrightarrow>
     (\<forall>p r. s = p @ r \<and> newline \<notin> set p \<longrightarrow> k (acc @ p) r = None)"
proof (induction s arbitrary: acc)
  case Nil
  show ?case by simp
next
  case (Cons c cs)
  show ?case
  proof (cases "c = newline")
    case True
    have "k acc (c # cs) = None" if "\<forall>p r. c # cs = p @ r \<and> newline \<notin> set p \<longrightarrow> k (acc @ p) r = None"
      using that[rule_format, of "[]" "c # cs"] by simp
    moreover have "k (acc @ p) r = None"
      if "k acc (c # cs) = None" "c # cs = p @ r" "newline \<notin> set p" for p r
      using that True by (cases p) auto
    ultimately show ?thesis using True by auto
  next
    case False
    have "dot_star k acc (c # cs) = None \<longleftrightarrow>
            dot_star k (acc @ [c]) cs = None \<and> k acc (c # cs) = None"
      using False by (simp split: option.splits)
    also have "\<dots> \<longleftrightarrow> (\<forall>p r. cs = p @ r \<and> newline \<notin> set p \<longrightarrow> k (acc @ c # p) r = None)
                      \<and> k acc (c # cs) = None"
      by (simp add: Cons.IH)
    also have "\<dots> \<longleftrightarrow> (\<forall>p r. c # cs = p @ r \<and> newline \<notin> set p \<longrightarrow> k (acc @ p) r = None)"
      (is "?A \<and> ?B \<longleftrightarrow> ?C")
    proof
      assume ab: "?A \<and> ?B"
      have "k (acc @ p) r = None" if "c # cs = p @ r" "newline \<notin> set p" for p r
        using that ab by (cases p) auto
      then show ?C by blast
    next
      assume c: ?C
      have ?B using c[rule_format, of "[]" "c # cs"] by simp
      moreover have "k (acc @ c # p) r = None" if "cs = p @ r" "newline \<notin> set p" for p r
        using c[rule_format, of "c # p" r] that False by simp
      ultimately show "?A \<and> ?B" by blast
    qed
    finally show ?thesis .
  qed
qed

lemma dot_star_SomeD:
  assumes "dot_star k acc s = Some v"
  shows "\<exists>p r. s = p @ r \<and> newline \<notin> set p \<and> k (acc @ p) r = Some v \<and>
           (\<forall>p' r'. s = p' @ r' \<and> newline \<notin> set p' \<and> length p < length p' \<longrightarrow> k (acc @ p') r' = None)"
  using assms
proof (induction s arbitrary: acc)
  case Nil
  then show ?case by simp
next
  case (Cons c cs)
  show ?case
  proof (cases "c \<noteq> newline \<and> dot_star k (acc @ [c]) cs \<noteq> None")
    case True
    then have "dot_star k (acc @ [c]) cs = Some v"
      using Cons.prems by (auto split: option.splits)
    from Cons.IH[OF this] obtain p r where pr: "cs = p @ r" "newline \<notin> set p"
      "k ((acc @ [c]) @ p) r = Some v"
      "\<forall>p' r'. cs = p' @ r' \<and> newline \<notin> set p' \<and> length p < length p' \<longrightarrow> k ((acc @ [c]) @ p') r' = None"
      by blast
    have "c # cs = (c # p) @ r \<and> newline \<notin> set (c # p) \<and> k (acc @ (c # p)) r = Some v"
      using pr True by auto
    moreover have "\<forall>p' r'. c # cs = p' @ r' \<and> newline \<notin> set p' \<and> length (c # p) < length p'
                     \<longrightarrow> k (acc @ p') r' = None"
      using pr(4) by (auto simp: Cons_eq_append_conv)
    ultimately show ?thesis by blast
  next
    case False
    then have here: "k acc (c # cs) = Some v"
      using Cons.prems by (auto split: option.splits if_splits)
    have "\<forall>p' r'. c # cs = p' @ r' \<and> newline \<notin> set p' \<and> length ([]::string) < length p'
            \<longrightarrow> k (acc @ p') r' = None"
    proof (intro allI impI)
      fix p' r'
      assume a: "c # cs = p' @ r' \<and> newline \<notin> set p' \<and> length ([]::string) < length p'"
      then obtain q where q: "p' = c # q" "cs = q @ r'"
        by (auto simp: Cons_eq_append_conv)
      with a have "c \<noteq> newline" "newline \<notin> set q" by auto
      with False have "dot_star k (acc @ [c]) cs = None" by simp
      then show "k (acc @ p') r' = None"
        using q \<open>newline \<notin> set q\<close> by (simp add: dot_star_None_iff)
    qed
    with here show ?thesis by (intro exI[of _ "[]"] exI[of _ "c # cs"]) simp
  qed
qed

lemma close_end_unique:
  "close_end r \<Longrightarrow> close_end (b @ r) \<Longrightarrow> newline \<notin> set b \<Longrightarrow> b = []"
  by (cases b) (auto simp: close_end_def Cons_eq_append_conv)

lemma group_close_Some_iff:
  "group_close r = Some g \<longleftrightarrow>
     (\<exists>b. g = CHR ''.'' # b \<and> newline \<notin> set b \<and> (r = g @ '')'' \<or> r = g @ [CHR '')'', newline]))"
  (is "?L \<longleftrightarrow> ?R")
proof
  assume ?L
  then obtain cs where r: "r = CHR ''.'' # cs"
    and d: "dot_star (\<lambda>acc rest. if close_end rest then Some (CHR ''.'' # acc) else None) [] cs = Some g"
    by (auto simp: group_close_def split: list.splits if_splits)
  from dot_star_SomeD[OF d] obtain p q where "cs = p @ q" "newline \<notin> set p"
    "(if close_end q then Some (CHR ''.'' # [] @ p) else None) = Some g"
    by blast
  then show ?R using r by (auto simp: close_end_def split: if_splits)
next
  assume ?R
  then obtain b where b: "g = CHR ''.'' # b" "newline \<notin> set b"
    and r: "r = g @ '')'' \<or> r = g @ [CHR '')'', newline]" by blast
  define e where "e = drop (length g) r"
  have e: "close_end e" "r = CHR ''.'' # b @ e" using r b by (auto simp: e_def close_end_def)
  let ?k = "\<lambda>acc rest. if close_end rest then Some (CHR ''.'' # acc) else None"
  have "dot_star ?k [] (b @ e) \<noteq> None"
    using e(1) b(2) by (auto simp: dot_star_None_iff)
  then obtain w where w: "dot_star ?k [] (b @ e) = Some w" by auto
  from dot_star_SomeD[OF w] obtain p q where pq: "b @ e = p @ q" "newline \<notin> set p"
    "?k ([] @ p) q = Some w" by blast
  then have cq: "close_end q" and wp: "w = CHR ''.'' # p" by (auto split: if_splits)
  have "p = b"
  proof -
    from pq(1) consider u where "p = b @ u" "e = u @ q" | u where "b = p @ u" "q = u @ e"
      by (auto simp: append_eq_append_conv2)
    then show ?thesis
    proof cases
      case 1
      have "newline \<notin> set u" using pq(2) 1 by simp
      from close_end_unique[OF cq _ this] e(1) 1 show ?thesis by simp
    next
      case 2
      have "newline \<notin> set u" using b(2) 2 by simp
      from close_end_unique[OF e(1) _ this] cq 2 show ?thesis by simp
    qed
  qed
  with w wp b e show ?L by (simp add: group_close_def)
qed

lemma paren_star_Some_iff:
  "paren_star r = Some g \<longleftrightarrow>
     (r = CHR ''('' # CHR ''*'' # tl (tl r) \<and> group_close (tl (tl r)) = Some g) \<or>
     (r = CHR ''('' # tl r \<and> group_close (tl r) = Some g)"
  by (cases r; cases "tl r")
     (auto simp: paren_star_def group_close_def split: option.splits list.splits)

lemma re_search_None_iff:
  "re_search s = None \<longleftrightarrow> (\<forall>r. suffix r s \<longrightarrow> paren_star r = None)"
proof (induction s)
  case Nil
  show ?case by (simp add: re_search.simps[of "[]"] match_here_def split: option.splits)
next
  case (Cons c cs)
  have m: "match_here (c # cs) = None \<longleftrightarrow>
      (\<forall>p r. c # cs = p @ r \<and> newline \<notin> set p \<longrightarrow> paren_star r = None)"
    unfolding match_here_def dot_star_None_iff by simp
  have "re_search (c # cs) = None \<longleftrightarrow> match_here (c # cs) = None \<and> re_search cs = None"
    by (simp add: re_search.simps[of "c # cs"] split: option.splits)
  also have "\<dots> \<longleftrightarrow> (\<forall>r. suffix r (c # cs) \<longrightarrow> paren_star r = None)"
  proof
    assume a: "match_here (c # cs) = None \<and> re_search cs = None"
    show "\<forall>r. suffix r (c # cs) \<longrightarrow> paren_star r = None"
    proof (intro allI impI)
      fix r assume "suffix r (c # cs)"
      then consider "r = c # cs" | "suffix r cs" by (auto simp: suffix_Cons)
      then show "paren_star r = None"
      proof cases
        case 1
        with a m show ?thesis by (metis append_Nil empty_iff list.set(1))
      next
        case 2
        with a Cons.IH show ?thesis by simp
      qed
    qed
  next
    assume a: "\<forall>r. suffix r (c # cs) \<longrightarrow> paren_star r = None"
    have "match_here (c # cs) = None"
      unfolding m using a by (auto simp: suffix_def)
    moreover have "re_search cs = None"
      unfolding Cons.IH using a by (auto simp: suffix_Cons)
    ultimately show "match_here (c # cs) = None \<and> re_search cs = None" ..
  qed
  finally show ?case .
qed

lemma re_search_SomeD:
  "re_search s = Some v \<Longrightarrow> \<exists>t. suffix t s \<and> match_here t = Some v"
proof (induction s)
  case Nil
  then show ?case by (auto simp: re_search.simps[of "[]"] split: option.splits)
next
  case (Cons c cs)
  show ?case
  proof (cases "match_here (c # cs)")
    case None
    with Cons.prems have "re_search cs = Some v" by (simp add: re_search.simps[of "c # cs"])
    from Cons.IH[OF this] show ?thesis by (auto simp: suffix_Cons)
  next
    case (Some g)
    with Cons.prems have "g = v" by (simp add: re_search.simps[of "c # cs"])
    with Some show ?thesis by blast
  qed
qed


lemma paren_star_SomeD:
  assumes "paren_star r = Some g"
  shows "\<exists>st b e. r = CHR ''('' # st @ g @ e \<and> (st = [] \<or> st = ''*'') \<and> g = CHR ''.'' # b \<and>
           newline \<notin> set b \<and> close_end e"
proof -
  from assms consider "r = CHR ''('' # CHR ''*'' # tl (tl r)" "group_close (tl (tl r)) = Some g"
    | "r = CHR ''('' # tl r" "group_close (tl r) = Some g"
    by (auto simp: paren_star_Some_iff)
  then show ?thesis
  proof cases
    case 1
    from 1(2) obtain b where b: "g = CHR ''.'' # b" "newline \<notin> set b"
      "tl (tl r) = g @ '')'' \<or> tl (tl r) = g @ [CHR '')'', newline]"
      by (auto simp: group_close_Some_iff)
    then obtain e where "tl (tl r) = g @ e" "close_end e" by (auto simp: close_end_def)
    with 1(1) b show ?thesis by (intro exI[of _ "''*''"] exI[of _ b] exI[of _ e]) simp
  next
    case 2
    from 2(2) obtain b where b: "g = CHR ''.'' # b" "newline \<notin> set b"
      "tl r = g @ '')'' \<or> tl r = g @ [CHR '')'', newline]"
      by (auto simp: group_close_Some_iff)
    then obtain e where "tl r = g @ e" "close_end e" by (auto simp: close_end_def)
    with 2(1) b show ?thesis by (intro exI[of _ "[]"] exI[of _ b] exI[of _ e]) simp
  qed
qed

lemma paren_star_hd: "paren_star r = Some g \<Longrightarrow> \<exists>cs. r = CHR ''('' # cs"
  by (auto simp: paren_star_Some_iff)

lemma close_end_no_paren_star: "close_end e \<Longrightarrow> suffix r e \<Longrightarrow> paren_star r = None"
proof (rule ccontr)
  assume e: "close_end e" and s: "suffix r e" and "paren_star r \<noteq> None"
  then obtain cs where "r = CHR ''('' # cs" using paren_star_hd by blast
  then have "CHR ''('' \<in> set r" by simp
  with s have "CHR ''('' \<in> set e" using set_mono_suffix by blast
  with e show False by (auto simp: close_end_def newline_def)
qed

lemma re_search_last:
  assumes s: "s = a @ r" and v: "paren_star r = Some v"
    and last: "\<forall>r'. suffix r' s \<and> length r' < length r \<longrightarrow> paren_star r' = None"
  shows "re_search s = Some v"
proof -
  have "suffix r s" using s by (simp add: suffix_def)
  then have "re_search s \<noteq> None" using v by (auto simp: re_search_None_iff)
  then obtain w where w: "re_search s = Some w" by auto
  from re_search_SomeD[OF w] obtain t where t: "suffix t s" "match_here t = Some w" by blast
  from dot_star_SomeD[OF t(2)[unfolded match_here_def]]
  obtain p r0 where pr: "t = p @ r0" "newline \<notin> set p" "paren_star r0 = Some w"
    and greedy: "\<forall>p' r'. t = p' @ r' \<and> newline \<notin> set p' \<and> length p < length p' \<longrightarrow> paren_star r' = None"
    by blast
  have r0s: "suffix r0 s" using t(1) pr(1) by (auto simp: suffix_def)
  have "\<not> length r0 < length r" using last r0s pr(3) by auto
  then have "suffix r r0"
    using suffix_length_suffix[OF \<open>suffix r s\<close> r0s] by simp
  then obtain m where m: "r0 = m @ r" by (auto simp: suffix_def)
  have "m = []"
  proof (rule ccontr)
    assume ne: "m \<noteq> []"
    from paren_star_SomeD[OF pr(3)] obtain st b e where
      sh: "r0 = CHR ''('' # st @ w @ e" "st = [] \<or> st = ''*''" "w = CHR ''.'' # b"
        "newline \<notin> set b" "close_end e"
      by blast
    define h where "h = CHR ''('' # st @ w"
    have hn: "newline \<notin> set h"
      using sh by (auto simp: h_def newline_def)
    have "m @ r = h @ e" using m sh(1) by (simp add: h_def)
    then consider u where "m @ u = h" "r = u @ e" | u where "h @ u = m" "e = u @ r"
      by (auto simp: append_eq_append_conv2)
    then have "newline \<notin> set m"
    proof cases
      case 1
      with hn show ?thesis by (metis Un_iff set_append)
    next
      case 2
      then have "suffix r e" by (simp add: suffix_def)
      from close_end_no_paren_star[OF sh(5) this] v show ?thesis by simp
    qed
    then have "newline \<notin> set (p @ m)" using pr(2) by simp
    moreover have "t = (p @ m) @ r" using pr(1) m by simp
    moreover have "length p < length (p @ m)" using ne by simp
    ultimately have "paren_star r = None" using greedy by blast
    with v show False by simp
  qed
  with m pr(3) v show ?thesis using w by simp
qed

lemma re_search_label:
  assumes "newline \<notin> set b" "CHR ''('' \<notin> set b" "st = [] \<or> st = ''*''"
  shows "re_search (a @ CHR ''('' # st @ CHR ''.'' # b @ '')'') = Some (CHR ''.'' # b)"
proof (rule re_search_last[where a = a and r = "CHR ''('' # st @ CHR ''.'' # b @ '')''"])
  show "a @ CHR ''('' # st @ CHR ''.'' # b @ '')'' = a @ CHR ''('' # st @ CHR ''.'' # b @ '')''" ..
  have "group_close (CHR ''.'' # b @ '')'') = Some (CHR ''.'' # b)"
    using assms(1) by (simp add: group_close_Some_iff)
  then show "paren_star (CHR ''('' # st @ CHR ''.'' # b @ '')'') = Some (CHR ''.'' # b)"
    using assms(3) by (auto simp: paren_star_Some_iff)
  show "\<forall>r'. suffix r' (a @ CHR ''('' # st @ CHR ''.'' # b @ '')'') \<and>
          length r' < length (CHR ''('' # st @ CHR ''.'' # b @ '')'') \<longrightarrow> paren_star r' = None"
  proof (intro allI impI, rule ccontr)
    fix r' assume a: "suffix r' (a @ CHR ''('' # st @ CHR ''.'' # b @ '')'') \<and>
          length r' < length (CHR ''('' # st @ CHR ''.'' # b @ '')'')" and n: "paren_star r' \<noteq> None"
    let ?r = "CHR ''('' # st @ CHR ''.'' # b @ '')''"
    have "suffix ?r (a @ ?r)" by (simp add: suffix_def)
    with a have "suffix r' ?r" using suffix_length_suffix[of r' "a @ ?r" ?r] by simp
    with a have "suffix r' (st @ CHR ''.'' # b @ '')'')"
      by (auto simp: suffix_Cons)
    moreover from n obtain cs where "r' = CHR ''('' # cs" using paren_star_hd by blast
    ultimately have "CHR ''('' \<in> set (st @ CHR ''.'' # b @ '')'')"
      using set_mono_suffix by fastforce
    with assms show False by auto
  qed
qed

lemma re_search_None_shape:
  "re_search s = None \<longleftrightarrow>
     \<not> (\<exists>a st b e. s = a @ ''('' @ st @ ''.'' @ b @ '')'' @ e \<and> (st = [] \<or> st = ''*'') \<and>
           (e = [] \<or> e = [newline]) \<and> newline \<notin> set b)"
  (is "?L \<longleftrightarrow> \<not> ?S")
proof
  assume l: ?L
  show "\<not> ?S"
  proof
    assume ?S
    then obtain a st b e where sh: "s = a @ ''('' @ st @ ''.'' @ b @ '')'' @ e" "st = [] \<or> st = ''*''"
        "e = [] \<or> e = [newline]" "newline \<notin> set b" by blast
    let ?r = "''('' @ st @ ''.'' @ b @ '')'' @ e"
    have "group_close (''.'' @ b @ '')'' @ e) = Some (CHR ''.'' # b)"
      using sh(3,4) by (auto simp: group_close_Some_iff)
    then have "paren_star ?r = Some (CHR ''.'' # b)"
      using sh(2) by (auto simp: paren_star_Some_iff)
    moreover have "suffix ?r s" using sh(1) by (simp add: suffix_def)
    ultimately show False using l by (auto simp: re_search_None_iff)
  qed
next
  assume ns: "\<not> ?S"
  show ?L
  proof (rule ccontr)
    assume "re_search s \<noteq> None"
    then obtain r g where r: "suffix r s" "paren_star r = Some g"
      by (auto simp: re_search_None_iff)
    from paren_star_SomeD[OF r(2)] obtain st b e where
      sh: "r = CHR ''('' # st @ g @ e" "st = [] \<or> st = ''*''" "g = CHR ''.'' # b"
        "newline \<notin> set b" "close_end e" by blast
    from r(1) obtain a where "s = a @ r" by (auto simp: suffix_def)
    with sh have "s = a @ ''('' @ st @ ''.'' @ b @ '')'' @ tl e \<and> (tl e = [] \<or> tl e = [newline])"
      by (auto simp: close_end_def)
    with sh ns show False by blast
  qed
qed

subsection \<open>The extension of a filter label\<close>

text \<open>
  Claim C7, as the code has it.  For a label \<open>prefix (*.ext1.ext2)\<close> whose extension
  tokens hold no opening parenthesis and no line break, \<open>_extension_from_filter\<close>
  returns exactly \<open>.ext1.ext2\<close>.  It raises (\<^verbatim>\<open>AttributeError\<close>) exactly on the
  labels that do not end, up to one final line break, in a group made of an opening
  parenthesis, an optional star, a dot, any text without a line break and a closing
  parenthesis: the star of the pattern is optional.
\<close>

theorem extension_from_filter_label:
  "(newline \<notin> set (ext1 @ ext2) \<and> CHR ''('' \<notin> set (ext1 @ ext2) \<longrightarrow>
      extension_from_filter (pre @ ''(*.'' @ ext1 @ ''.'' @ ext2 @ '')'')
        = Inr (''.'' @ ext1 @ ''.'' @ ext2))
   \<and> (extension_from_filter label = Inl AttributeError \<longleftrightarrow>
        \<not> (\<exists>a st b e. label = a @ ''('' @ st @ ''.'' @ b @ '')'' @ e \<and> (st = [] \<or> st = ''*'') \<and>
              (e = [] \<or> e = [newline]) \<and> newline \<notin> set b))"
proof (intro conjI impI)
  assume a: "newline \<notin> set (ext1 @ ext2) \<and> CHR ''('' \<notin> set (ext1 @ ext2)"
  have "re_search (pre @ CHR ''('' # ''*'' @ CHR ''.'' # (ext1 @ ''.'' @ ext2) @ '')'')
          = Some (CHR ''.'' # (ext1 @ ''.'' @ ext2))"
    by (rule re_search_label) (use a in \<open>auto simp: newline_def\<close>)
  then show "extension_from_filter (pre @ ''(*.'' @ ext1 @ ''.'' @ ext2 @ '')'')
        = Inr (''.'' @ ext1 @ ''.'' @ ext2)"
    by (simp add: extension_from_filter_def)
next
  have "extension_from_filter label = Inl AttributeError \<longleftrightarrow> re_search label = None"
    by (simp add: extension_from_filter_def split: option.splits)
  then show "extension_from_filter label = Inl AttributeError \<longleftrightarrow>
        \<not> (\<exists>a st b e. label = a @ ''('' @ st @ ''.'' @ b @ '')'' @ e \<and> (st = [] \<or> st = ''*'') \<and>
              (e = [] \<or> e = [newline]) \<and> newline \<notin> set b)"
    by (simp only: re_search_None_shape)
qed

text \<open>
  The theorem at the label of the compressed tab format, and the second half at a
  label without the star.
\<close>

theorem extension_from_filter_label_witness:
  "extension_from_filter ''Compressed Tab-separated values (*.tab.gz)'' = Inr ''.tab.gz'' \<and>
   extension_from_filter ''Text (.tab)'' \<noteq> Inl AttributeError"
proof -
  have sh: "\<exists>a st b e. ''Text (.tab)'' = a @ ''('' @ st @ ''.'' @ b @ '')'' @ e \<and> (st = [] \<or> st = ''*'') \<and>
              (e = [] \<or> e = [newline]) \<and> newline \<notin> set b"
    by (intro exI[of _ "''Text ''"] exI[of _ "[]"] exI[of _ "''tab''"]) (simp add: newline_def)
  show ?thesis
    using extension_from_filter_label[where ?ext1.0 = "''tab''" and ?ext2.0 = "''gz''"
        and pre = "''Compressed Tab-separated values ''" and label = "''Text (.tab)''"] sh
    by (simp add: newline_def)
qed

text \<open>
  Claim C7 as stated fails: a label without the star is not of the shape
  \<open>prefix (*.ext)\<close>, and the method returns its extension instead of raising.
\<close>

theorem extension_from_filter_star_optional:
  "extension_from_filter ''Text (.tab)'' = Inr ''.tab''"
  by code_simp

section \<open>Properties of \<open>_replace_extension\<close>\<close>

subsection \<open>\<open>splitext\<close> and the loop\<close>

lemma splitext_loop_append: "fst (splitext_loop p i d) @ snd (splitext_loop p i d) = p"
  by (induction p i d rule: splitext_loop.induct) (subst (1 2) splitext_loop.simps, simp)

lemma splitext_append: "splitext p = (base, ext) \<Longrightarrow> base @ ext = p"
  using splitext_loop_append[of p "rfind p CHR ''/'' + 1" "rfind p CHR ''.''"]
  by (auto simp: splitext_def Let_def split: if_splits)

lemma splitext_shorter: "splitext p = (base, ext) \<Longrightarrow> ext \<noteq> [] \<Longrightarrow> length base < length p"
  using splitext_append[of p base ext] by (cases ext) auto

lemma snd_splitext_loop_cases:
  "snd (splitext_loop p i d) = [] \<or> snd (splitext_loop p i d) = drop (nat d) p"
  by (induction p i d rule: splitext_loop.induct) (subst (1 2) splitext_loop.simps, simp)

lemma loop_unfold_stop:
  "drop 1 (snd (splitext p)) \<notin> K \<Longrightarrow> replace_extension_loop K p = Some p"
  by (subst replace_extension_loop.simps) (auto split: prod.splits)

lemma loop_unfold_strip:
  "drop 1 (snd (splitext p)) \<in> K \<Longrightarrow>
     replace_extension_loop K p = replace_extension_loop K (fst (splitext p))"
  by (subst replace_extension_loop.simps) (auto split: prod.splits)

lemma loop_iterates:
  assumes "[] \<notin> K"
  shows "\<exists>n. replace_extension_loop K p = Some (((fst \<circ> splitext) ^^ n) p) \<and>
           (\<forall>i<n. drop 1 (snd (splitext (((fst \<circ> splitext) ^^ i) p))) \<in> K) \<and>
           drop 1 (snd (splitext (((fst \<circ> splitext) ^^ n) p))) \<notin> K"
proof (induction p rule: length_induct)
  case (1 p)
  show ?case
  proof (cases "drop 1 (snd (splitext p)) \<in> K")
    case False
    then have "replace_extension_loop K p = Some (((fst \<circ> splitext) ^^ 0) p)"
      by (simp add: loop_unfold_stop)
    with False show ?thesis by (intro exI[of _ 0]) simp
  next
    case True
    obtain base ext where be: "splitext p = (base, ext)" by (cases "splitext p")
    with True assms have "ext \<noteq> []" by auto
    then have "length base < length p" using be by (rule splitext_shorter[rotated])
    with 1 obtain n where n: "replace_extension_loop K base = Some (((fst \<circ> splitext) ^^ n) base)"
      "\<forall>i<n. drop 1 (snd (splitext (((fst \<circ> splitext) ^^ i) base))) \<in> K"
      "drop 1 (snd (splitext (((fst \<circ> splitext) ^^ n) base))) \<notin> K"
      by blast
    have sh: "((fst \<circ> splitext) ^^ Suc i) p = ((fst \<circ> splitext) ^^ i) base" for i
      using be by (simp add: funpow_swap1)
    have "replace_extension_loop K p = Some (((fst \<circ> splitext) ^^ Suc n) p)"
      using loop_unfold_strip[OF True] be n(1) sh by simp
    moreover have "\<forall>i<Suc n. drop 1 (snd (splitext (((fst \<circ> splitext) ^^ i) p))) \<in> K"
    proof (intro allI impI)
      fix i assume "i < Suc n"
      then show "drop 1 (snd (splitext (((fst \<circ> splitext) ^^ i) p))) \<in> K"
        using True n(2) sh by (cases i) auto
    qed
    moreover have "drop 1 (snd (splitext (((fst \<circ> splitext) ^^ Suc n) p))) \<notin> K"
      using n(3) sh by simp
    ultimately show ?thesis by blast
  qed
qed

lemma loop_terminates: "[] \<notin> K \<Longrightarrow> \<exists>stripped. replace_extension_loop K p = Some stripped"
  using loop_iterates[of K p] by blast

lemma loop_result_fixed:
  assumes "[] \<notin> K" "replace_extension_loop K p = Some b"
  shows "drop 1 (snd (splitext b)) \<notin> K"
  using loop_iterates[OF assms(1), of p] assms(2) by auto

lemma loop_diverges:
  assumes "replace_extension_loop K p = Some y"
  shows "\<not> ([] \<in> K \<and> snd (splitext p) = [])"
proof (rule replace_extension_loop.raw_induct
    [where P = "\<lambda>K p y. \<not> ([] \<in> K \<and> snd (splitext p) = [])", OF _ assms])
  fix f :: "string set \<Rightarrow> string \<Rightarrow> string option" and K p y
  assume ih: "\<And>K p y. f K p = Some y \<Longrightarrow> \<not> ([] \<in> K \<and> snd (splitext p) = [])"
    and body: "(case splitext p of
                 (base, ext) \<Rightarrow> if drop 1 ext \<notin> K then Some p else f K base) = Some y"
  show "\<not> ([] \<in> K \<and> snd (splitext p) = [])"
  proof
    assume a: "[] \<in> K \<and> snd (splitext p) = []"
    obtain base ext where be: "splitext p = (base, ext)" by (cases "splitext p")
    with a have "ext = []" by simp
    with be have "base = p" using splitext_append by fastforce
    with body be a \<open>ext = []\<close> have "f K p = Some y" by simp
    from ih[OF this] a show False by simp
  qed
qed

subsection \<open>The known extensions\<close>

lemma collect_extensions_Inr:
  "collect_extensions filters known = Inr K \<Longrightarrow>
     K = known \<union> (\<Union>f\<in>set filters. (case extension_from_filter f of Inl e \<Rightarrow> {} | Inr ext \<Rightarrow> set (str_split ext CHR ''.''))) \<and>
     (\<forall>f\<in>set filters. \<exists>ext. extension_from_filter f = Inr ext)"
proof (induction filters arbitrary: known)
  case Nil
  then show ?case by simp
next
  case (Cons f filters)
  then obtain ext where ext: "extension_from_filter f = Inr ext"
    and rest: "collect_extensions filters (known \<union> set (str_split ext CHR ''.'')) = Inr K"
    by (auto split: sum.splits)
  from Cons.IH[OF rest] ext show ?case by (auto )
qed

lemma collect_extensions_Inl:
  "collect_extensions filters known = Inl e \<Longrightarrow> \<exists>f\<in>set filters. extension_from_filter f = Inl e"
  by (induction filters arbitrary: known) (auto split: sum.splits)

lemma known_extensions_Inr:
  assumes "known_extensions filters = Inr K"
  shows "K = {t. t \<noteq> [] \<and> (\<exists>f\<in>set filters. \<exists>ext. extension_from_filter f = Inr ext \<and>
                 t \<in> set (str_split ext CHR ''.''))}"
    and "[] \<notin> K"
    and "\<forall>f\<in>set filters. \<exists>ext. extension_from_filter f = Inr ext"
proof -
  from assms obtain known where k: "collect_extensions filters {} = Inr known"
    and K: "K = (if [] \<in> known then known - {[]} else known)"
    by (auto simp: known_extensions_def split: sum.splits)
  from collect_extensions_Inr[OF k] have kn: "known = (\<Union>f\<in>set filters. (case extension_from_filter f of Inl e \<Rightarrow> {} | Inr ext \<Rightarrow> set (str_split ext CHR ''.'')))"
    and ok: "\<forall>f\<in>set filters. \<exists>ext. extension_from_filter f = Inr ext" by auto
  show "[] \<notin> K" using K by auto
  show "\<forall>f\<in>set filters. \<exists>ext. extension_from_filter f = Inr ext" by (rule ok)
  have "K = known - {[]}" using K by auto
  then show "K = {t. t \<noteq> [] \<and> (\<exists>f\<in>set filters. \<exists>ext. extension_from_filter f = Inr ext \<and>
                 t \<in> set (str_split ext CHR ''.''))}"
    unfolding kn by (auto  split: sum.splits)
qed

lemma str_split_no_sep: "w \<in> set (str_split s c) \<Longrightarrow> c \<notin> set w"
proof (induction s arbitrary: w)
  case Nil
  then show ?case by simp
next
  case (Cons x xs)
  show ?case
  proof (cases "x = c")
    case True
    with Cons show ?thesis by auto
  next
    case False
    obtain v vs where v: "str_split xs c = v # vs"
      by (cases "str_split xs c") (cases xs; simp split: if_splits list.splits)+
    with Cons.prems False have "w = x # v \<or> w \<in> set vs" by simp
    with Cons.IH v False show ?thesis by auto
  qed
qed

lemma known_extensions_no_dot:
  assumes "known_extensions filters = Inr K" "t \<in> K"
  shows "CHR ''.'' \<notin> set t"
  using known_extensions_Inr(1)[OF assms(1)] assms(2) str_split_no_sep by auto

lemma known_extensions_tab_filters: "known_extensions tab_filters = Inr {''tab'', ''gz''}"
  by code_simp

subsection \<open>\<open>rfind\<close> and the extension of a name that ends in a known one\<close>

lemma rfind_from_append: "n \<le> length p \<Longrightarrow> rfind_from (p @ q) c n = rfind_from p c n"
  by (induction n) (auto simp: nth_append)

lemma rfind_append_notin: "c \<notin> set x \<Longrightarrow> rfind (b @ x) c = rfind b c"
proof (induction x rule: rev_induct)
  case Nil
  show ?case by simp
next
  case (snoc y ys)
  have "rfind (b @ ys @ [y]) c = rfind_from ((b @ ys) @ [y]) c (Suc (length (b @ ys)))"
    by (simp add: rfind_def)
  also have "\<dots> = rfind_from ((b @ ys) @ [y]) c (length (b @ ys))"
    using snoc.prems by (auto simp del: append_assoc simp: nth_append)
  also have "\<dots> = rfind (b @ ys) c"
    unfolding rfind_def by (rule rfind_from_append) simp
  finally show ?case using snoc by simp
qed

lemma rfind_snoc: "rfind (b @ [c]) c = int (length b)"
  by (simp add: rfind_def nth_append)

lemma rfind_last_occurrence: "c \<notin> set x \<Longrightarrow> rfind (b @ c # x) c = int (length b)"
  using rfind_append_notin[of c x "b @ [c]"] by (simp add: rfind_snoc)

lemma rfind_from_bounds: "- 1 \<le> rfind_from p c n \<and> rfind_from p c n < int n"
  by (induction n) auto

lemma rfind_bounds: "- 1 \<le> rfind p c" "rfind p c < int (length p)"
  using rfind_from_bounds[of p c "length p"] by (simp_all add: rfind_def)

lemma snd_splitext_cases:
  "snd (splitext p) = [] \<or> snd (splitext p) = drop (nat (rfind p CHR ''.'')) p"
  using snd_splitext_loop_cases[of p "rfind p CHR ''/'' + 1" "rfind p CHR ''.''"]
  by (auto simp: splitext_def Let_def)

lemma splitext_trailing_dot: "drop 1 (snd (splitext (p @ ''.''))) = []"
  using snd_splitext_cases[of "p @ ''.''"] by (auto simp: rfind_snoc)

lemma splitext_loop_found:
  assumes "i \<le> j" "j < d" "take 1 (drop (nat j) p) \<noteq> [CHR ''.'']"
  shows "splitext_loop p i d = (take (nat d) p, drop (nat d) p)"
  using assms
proof (induction p i d rule: splitext_loop.induct)
  case (1 p i d)
  show ?case
  proof (cases "take 1 (drop (nat i) p) \<noteq> [CHR ''.'']")
    case True
    with 1(2,3) show ?thesis by (subst splitext_loop.simps) simp
  next
    case False
    with 1(2,4) have "i \<noteq> j" by auto
    with 1(2) have "i + 1 \<le> j" by simp
    have "splitext_loop p (i + 1) d = (take (nat d) p, drop (nat d) p)"
      using 1(1)[OF _ _ \<open>i + 1 \<le> j\<close> 1(3,4)] 1(2,3) False by simp
    with False 1(2,3) show ?thesis by (subst splitext_loop.simps) simp
  qed
qed

lemma snd_path_split: "snd (path_split p) = drop (nat (rfind p CHR ''/'' + 1)) p"
  by (simp add: path_split_def Let_def)

lemma snd_path_split_append:
  assumes "CHR ''/'' \<notin> set x"
  shows "snd (path_split (b @ x)) = snd (path_split b) @ x"
proof -
  have "nat (rfind b CHR ''/'' + 1) \<le> length b"
    using rfind_bounds(2)[of b "CHR ''/''"] by simp
  then show ?thesis
    by (simp add: snd_path_split rfind_append_notin[OF assms])
qed

lemma splitext_new_extension:
  assumes t: "CHR ''.'' \<notin> set t" "CHR ''/'' \<notin> set t"
    and name: "\<exists>c\<in>set (snd (path_split b)). c \<noteq> CHR ''.''"
  shows "splitext (b @ CHR ''.'' # t) = (b, CHR ''.'' # t)"
proof -
  let ?p = "b @ CHR ''.'' # t"
  let ?i = "nat (rfind b CHR ''/'' + 1)"
  have sep: "rfind ?p CHR ''/'' = rfind b CHR ''/''"
    using t(2) by (intro rfind_append_notin) simp
  have dot: "rfind ?p CHR ''.'' = int (length b)"
    using t(1) by (rule rfind_last_occurrence)
  from name obtain k where k: "k < length (drop ?i b)" "drop ?i b ! k \<noteq> CHR ''.''"
    by (auto simp: snd_path_split in_set_conv_nth)
  define j where "j = ?i + k"
  have jb: "j < length b" using k(1) by (simp add: j_def)
  have bj: "b ! j \<noteq> CHR ''.''" using k by (simp add: j_def)
  have "drop j ?p = ?p ! j # drop (Suc j) ?p"
    using jb by (intro Cons_nth_drop_Suc[symmetric]) simp
  then have "take 1 (drop j ?p) = [b ! j]"
    using jb by (simp add: nth_append)
  with bj have nd: "take 1 (drop (nat (int j)) ?p) \<noteq> [CHR ''.'']" by simp
  have ij: "rfind b CHR ''/'' + 1 \<le> int j"
    using rfind_bounds(1)[of b "CHR ''/''"] by (simp add: j_def)
  have "splitext_loop ?p (rfind b CHR ''/'' + 1) (int (length b))
          = (take (nat (int (length b))) ?p, drop (nat (int (length b))) ?p)"
    using splitext_loop_found[OF ij _ nd] jb by simp
  moreover have "rfind b CHR ''/'' < int (length b)" by (rule rfind_bounds)
  ultimately show ?thesis by (simp add: splitext_def sep dot Let_def)
qed

lemma loop_new_extension:
  assumes K: "[] \<notin> K"
    and tokens: "\<forall>t\<in>set tokens. t \<in> K \<and> CHR ''.'' \<notin> set t \<and> CHR ''/'' \<notin> set t"
    and name: "\<exists>c\<in>set (snd (path_split base)). c \<noteq> CHR ''.''"
  shows "replace_extension_loop K (base @ concat (map ((#) CHR ''.'') tokens))
           = replace_extension_loop K base"
  using tokens
proof (induction tokens rule: rev_induct)
  case Nil
  show ?case by simp
next
  case (snoc t ts)
  let ?b = "base @ concat (map ((#) CHR ''.'') ts)"
  have t: "t \<in> K" "CHR ''.'' \<notin> set t" "CHR ''/'' \<notin> set t" using snoc.prems by auto
  have "CHR ''/'' \<notin> set (concat (map ((#) CHR ''.'') ts))" using snoc.prems by auto
  then have "snd (path_split ?b) = snd (path_split base) @ concat (map ((#) CHR ''.'') ts)"
    by (rule snd_path_split_append)
  with name have "\<exists>c\<in>set (snd (path_split ?b)). c \<noteq> CHR ''.''" by auto
  from splitext_new_extension[OF t(2,3) this]
  have sp: "splitext (?b @ CHR ''.'' # t) = (?b, CHR ''.'' # t)" .
  have "replace_extension_loop K (?b @ CHR ''.'' # t) = replace_extension_loop K ?b"
    using loop_unfold_strip[of "?b @ CHR ''.'' # t" K] t(1) sp by simp
  also have "\<dots> = replace_extension_loop K base"
    using snoc by simp
  finally show ?case by simp
qed

subsection \<open>What the method returns\<close>

text \<open>
  Claim C1.  The known extensions are the non-empty tokens of the extensions of all
  registered filter labels.  \<open>_replace_extension\<close> strips the last extension of the
  path \<open>n\<close> times, every stripped token being known, stops at the first extension
  whose token is not known (the empty token of a name without extension is never
  known) and appends the target extension to what is left.  With the tokens \<open>tab\<close> and
  \<open>gz\<close> known, \<open>report.tab.gz\<close> becomes \<open>report.csv\<close> and \<open>report.v2\<close> becomes
  \<open>report.v2.csv\<close>.
\<close>

theorem replace_extension_strips:
  "(known_extensions filters = Inr K \<longrightarrow>
      K = {t. t \<noteq> [] \<and> (\<exists>f\<in>set filters. \<exists>ext. extension_from_filter f = Inr ext \<and>
                 t \<in> set (str_split ext CHR ''.''))}
      \<and> (\<exists>n. replace_extension filters path extension
                  = Some (Inr (((fst \<circ> splitext) ^^ n) path @ extension))
             \<and> (\<forall>i<n. drop 1 (snd (splitext (((fst \<circ> splitext) ^^ i) path))) \<in> K)
             \<and> drop 1 (snd (splitext (((fst \<circ> splitext) ^^ n) path))) \<notin> K))
   \<and> known_extensions tab_filters = Inr {''tab'', ''gz''}
   \<and> replace_extension tab_filters ''report.tab.gz'' ''.csv'' = Some (Inr ''report.csv'')
   \<and> replace_extension tab_filters ''report.v2'' ''.csv'' = Some (Inr ''report.v2.csv'')"
proof (intro conjI impI)
  assume k: "known_extensions filters = Inr K"
  then show "K = {t. t \<noteq> [] \<and> (\<exists>f\<in>set filters. \<exists>ext. extension_from_filter f = Inr ext \<and>
                 t \<in> set (str_split ext CHR ''.''))}"
    by (rule known_extensions_Inr(1))
  have "[] \<notin> K" using k by (rule known_extensions_Inr(2))
  from loop_iterates[OF this, of path] k
  show "\<exists>n. replace_extension filters path extension
                  = Some (Inr (((fst \<circ> splitext) ^^ n) path @ extension))
             \<and> (\<forall>i<n. drop 1 (snd (splitext (((fst \<circ> splitext) ^^ i) path))) \<in> K)
             \<and> drop 1 (snd (splitext (((fst \<circ> splitext) ^^ n) path))) \<notin> K"
    by (auto simp: replace_extension_def)
next
  show "known_extensions tab_filters = Inr {''tab'', ''gz''}" by code_simp
  show "replace_extension tab_filters ''report.tab.gz'' ''.csv'' = Some (Inr ''report.csv'')"
    by code_simp
  show "replace_extension tab_filters ''report.v2'' ''.csv'' = Some (Inr ''report.v2.csv'')"
    by code_simp
qed

text \<open>
  The first half of the theorem at the registry of the two tab formats.
\<close>

theorem replace_extension_strips_witness:
  "\<exists>n. replace_extension tab_filters ''report.tab.gz'' ''.csv''
          = Some (Inr (((fst \<circ> splitext) ^^ n) ''report.tab.gz'' @ ''.csv''))
      \<and> drop 1 (snd (splitext (((fst \<circ> splitext) ^^ n) ''report.tab.gz''))) \<notin> {''tab'', ''gz''}"
  using replace_extension_strips[of tab_filters "{''tab'', ''gz''}" "''report.tab.gz''" "''.csv''"]
  by blast

text \<open>
  Claim C9.  \<open>_replace_extension\<close> returns or raises for every registry, path and
  target extension: the empty token is never among the known extensions, and without
  it the loop ends for every path.  It ends at once on a path whose extension token
  is not known, on a path without extension and on a path with a trailing dot.  Were
  the empty token known, the loop would never end on a path without extension.
\<close>

theorem replace_extension_terminates:
  "(\<exists>result. replace_extension filters path extension = Some result)
   \<and> (known_extensions filters = Inr K \<longrightarrow> [] \<notin> K)
   \<and> ([] \<notin> K \<longrightarrow>
        (\<exists>stripped. replace_extension_loop K path = Some stripped)
        \<and> (snd (splitext path) = [] \<longrightarrow> replace_extension_loop K path = Some path)
        \<and> replace_extension_loop K (path @ ''.'') = Some (path @ ''.''))
   \<and> (drop 1 (snd (splitext path)) \<notin> K \<longrightarrow> replace_extension_loop K path = Some path)
   \<and> ([] \<in> K \<and> snd (splitext path) = [] \<longrightarrow> replace_extension_loop K path = None)"
proof (intro conjI impI)
  show "\<exists>result. replace_extension filters path extension = Some result"
  proof (cases "known_extensions filters")
    case (Inl e)
    then show ?thesis by (simp add: replace_extension_def)
  next
    case (Inr known)
    then have "[] \<notin> known" by (rule known_extensions_Inr(2))
    from loop_terminates[OF this, of path] Inr show ?thesis
      by (auto simp: replace_extension_def)
  qed
next
  assume "known_extensions filters = Inr K"
  then show "[] \<notin> K" by (rule known_extensions_Inr(2))
next
  assume e: "[] \<notin> K"
  then show "\<exists>stripped. replace_extension_loop K path = Some stripped"
    by (rule loop_terminates)
  show "replace_extension_loop K (path @ ''.'') = Some (path @ ''.'')"
    using e by (intro loop_unfold_stop) (simp only: splitext_trailing_dot, simp)
  show "replace_extension_loop K path = Some path" if "snd (splitext path) = []"
    using e that by (intro loop_unfold_stop) simp
next
  assume "drop 1 (snd (splitext path)) \<notin> K"
  then show "replace_extension_loop K path = Some path" by (rule loop_unfold_stop)
next
  assume "[] \<in> K \<and> snd (splitext path) = []"
  then show "replace_extension_loop K path = None"
    using loop_diverges[of K path] by (cases "replace_extension_loop K path") auto
qed

text \<open>
  The theorem at the registry of the two tab formats, on a name with a trailing dot
  and on a name with two known extensions.
\<close>

theorem replace_extension_terminates_witness:
  "known_extensions tab_filters = Inr {''tab'', ''gz''} \<and>
   replace_extension_loop {''tab'', ''gz''} ''report.'' = Some ''report.'' \<and>
   (\<exists>stripped. replace_extension_loop {''tab'', ''gz''} ''report.tab.gz'' = Some stripped) \<and>
   replace_extension_loop {[], ''tab'', ''gz''} ''report'' = None"
proof -
  have "snd (splitext ''report'') = []" by code_simp
  then show ?thesis
    using replace_extension_terminates[of tab_filters "''report''" "''.csv''" "{''tab'', ''gz''}"]
      replace_extension_terminates[of tab_filters "''report.tab.gz''" "''.csv''" "{''tab'', ''gz''}"]
      replace_extension_terminates[of tab_filters "''report''" "''.csv''" "{[], ''tab'', ''gz''}"]
      known_extensions_tab_filters
    by simp
qed

text \<open>
  Claim C2, as the code has it.  Applying \<open>_replace_extension\<close> to its own result
  changes nothing when the target extension is made of known tokens without a slash,
  each after a dot (as the extension of a registered filter such as \<open>.tab.gz\<close> is),
  and the file name part of the stripped path holds a character other than a dot.
\<close>

theorem replace_extension_idempotent:
  assumes "known_extensions filters = Inr K"
    and "extension = concat (map ((#) CHR ''.'') tokens)"
    and "\<forall>t\<in>set tokens. t \<in> K \<and> CHR ''/'' \<notin> set t"
    and "replace_extension_loop K path = Some base"
    and "\<exists>c\<in>set (snd (path_split base)). c \<noteq> CHR ''.''"
  shows "replace_extension filters path extension = Some (Inr (base @ extension)) \<and>
         replace_extension filters (base @ extension) extension = Some (Inr (base @ extension))"
proof -
  have K: "[] \<notin> K" using assms(1) by (rule known_extensions_Inr(2))
  have tk: "\<forall>t\<in>set tokens. t \<in> K \<and> CHR ''.'' \<notin> set t \<and> CHR ''/'' \<notin> set t"
    using assms(3) known_extensions_no_dot[OF assms(1)] by blast
  have "drop 1 (snd (splitext base)) \<notin> K"
    using loop_result_fixed[OF K assms(4)] .
  then have "replace_extension_loop K base = Some base" by (rule loop_unfold_stop)
  then have "replace_extension_loop K (base @ extension) = Some base"
    using loop_new_extension[OF K tk assms(5)] assms(2) by simp
  then show ?thesis using assms(1,4) by (simp add: replace_extension_def)
qed

text \<open>
  The theorem at the registry of the two tab formats and the extension \<open>.tab.gz\<close>.
\<close>

theorem replace_extension_idempotent_witness:
  "replace_extension tab_filters ''/tmp/report.tab'' ''.tab.gz'' = Some (Inr ''/tmp/report.tab.gz'') \<and>
   replace_extension tab_filters ''/tmp/report.tab.gz'' ''.tab.gz'' = Some (Inr ''/tmp/report.tab.gz'')"
proof -
  have 1: "''.tab.gz'' = concat (map ((#) CHR ''.'') [''tab'', ''gz''])" by simp
  have 2: "\<forall>t\<in>set [''tab'', ''gz'']. t \<in> {''tab'', ''gz''} \<and> CHR ''/'' \<notin> set t" by simp
  have 3: "replace_extension_loop {''tab'', ''gz''} ''/tmp/report.tab'' = Some ''/tmp/report''"
    by code_simp
  have 4: "\<exists>c\<in>set (snd (path_split ''/tmp/report'')). c \<noteq> CHR ''.''"
    by code_simp
  show ?thesis
    using replace_extension_idempotent[OF known_extensions_tab_filters 1 2 3 4] by simp
qed

text \<open>
  Claim C2 as stated fails: with the tokens \<open>tab\<close> and \<open>gz\<close> known, the target
  extension \<open>.csv\<close> is appended a second time by the second application.
\<close>

theorem replace_extension_not_idempotent:
  "replace_extension tab_filters ''report.tab.gz'' ''.csv'' = Some (Inr ''report.csv'') \<and>
   replace_extension tab_filters ''report.csv'' ''.csv'' = Some (Inr ''report.csv.csv'')"
  by code_simp

text \<open>
  The second application also appends again when the stripped path has no file name.
\<close>

lemma empty_name_not_idempotent:
  "replace_extension tab_filters ''/tmp/'' ''.tab'' = Some (Inr ''/tmp/.tab'') \<and>
   replace_extension tab_filters ''/tmp/.tab'' ''.tab'' = Some (Inr ''/tmp/.tab.tab'')"
  by code_simp

section \<open>Properties of the widget's methods\<close>

lemmas save_defs = try_save_def do_save_def writer_def msg_clear_def msg_call_def

text \<open>
  Claim C5, as the code has it.  After \<open>update_messages\<close> the error \<open>no_file_name\<close> is
  shown exactly when \<open>auto_save\<close> is on and the file name is empty, the information
  \<open>empty_input\<close> is shown exactly when the file name is not empty and there is no
  data, and the two are never shown together.
\<close>

theorem update_messages_conditions:
  "(Error (update_messages self) no_file_name \<noteq> None \<longleftrightarrow> auto_save self \<and> filename self = [])
   \<and> (Information (update_messages self) empty_input \<noteq> None \<longleftrightarrow>
        filename self \<noteq> [] \<and> data self = None)
   \<and> \<not> (Error (update_messages self) no_file_name \<noteq> None \<and>
          Information (update_messages self) empty_input \<noteq> None)"
  by (auto simp: update_messages_def msg_call_def Let_def)

text \<open>
  The theorem at a widget with auto save and no file name, and at a widget with a
  file name and no data.
\<close>

theorem update_messages_conditions_witness:
  "Error (update_messages (widget0\<lparr>auto_save := True\<rparr>)) no_file_name \<noteq> None \<and>
   Information (update_messages (widget0\<lparr>auto_save := True\<rparr>)) empty_input = None \<and>
   Information (update_messages (widget0\<lparr>filename := ''out.tab''\<rparr>)) empty_input \<noteq> None \<and>
   Error (update_messages (widget0\<lparr>filename := ''out.tab''\<rparr>)) no_file_name = None"
  using update_messages_conditions[of "widget0\<lparr>auto_save := True\<rparr>"]
    update_messages_conditions[of "widget0\<lparr>filename := ''out.tab''\<rparr>"]
  by (simp add: widget0_def)

text \<open>
  Claim C5 as stated fails: no state of the widget shows both conditions after
  \<open>update_messages\<close>, since one needs an empty file name and the other a file name.
\<close>

theorem update_messages_never_both:
  "\<not> (\<exists>self :: nat OWSaveBase.
         Error (update_messages self) no_file_name \<noteq> None \<and>
         Information (update_messages self) empty_input \<noteq> None)"
  by (auto simp: update_messages_def msg_call_def Let_def)

text \<open>
  Claim C4.  \<open>on_new_input\<close> replaces the three message groups by the recomputed
  status: \<open>no_file_name\<close> and \<open>empty_input\<close> as \<open>update_messages\<close> sets them, and
  nothing else.  It then calls \<open>save_file\<close> exactly when \<open>auto_save\<close> is on and the
  file name is not empty, and returns otherwise.  With \<open>auto_save\<close> on and an empty
  file name, \<open>no_file_name\<close> is shown, \<open>empty_input\<close> is not, and no writer is called.
\<close>

theorem on_new_input_steps:
  "on_new_input filters dlg self =
     (let refreshed = self\<lparr>
            Error := (if filename self = [] \<and> auto_save self
                      then [no_file_name \<mapsto> ''File name is not set.''] else Map.empty),
            Warning := Map.empty,
            Information := (if filename self \<noteq> [] \<and> data self = None
                            then [empty_input \<mapsto> ''Empty input; nothing was saved.'']
                            else Map.empty)\<rparr>
      in if auto_save self \<and> filename self \<noteq> [] then save_file filters dlg refreshed
         else Return refreshed)
   \<and> (auto_save self \<and> filename self = [] \<longrightarrow>
        (\<exists>self'. on_new_input filters dlg self = Return self' \<and>
           Error self' no_file_name \<noteq> None \<and> Information self' empty_input = None \<and>
           write_calls self' = write_calls self))"
  by (cases self)
     (auto simp: on_new_input_def update_messages_def update_status_def msg_call_def Let_def)

text \<open>
  The theorem at a widget with auto save, data, no file name and old messages in
  every group.
\<close>

theorem on_new_input_steps_witness:
  "on_new_input (registry (raising (IOError ''disk full''))) (Accepted ''x.tab'' ''Tab-separated values (*.tab)'')
      (widget0\<lparr>auto_save := True, data := Some 7, Error := [general_error \<mapsto> ''disk full''],
          Warning := [other_msg ''w'' \<mapsto> ''old''], Information := [empty_input \<mapsto> ''old'']\<rparr>)
     = Return (widget0\<lparr>auto_save := True, data := Some 7,
          Error := [no_file_name \<mapsto> ''File name is not set.'']\<rparr>)"
  using on_new_input_steps[of "registry (raising (IOError ''disk full''))"
      "Accepted ''x.tab'' ''Tab-separated values (*.tab)''"
      "widget0\<lparr>auto_save := True, data := Some 7, Error := [general_error \<mapsto> ''disk full''],
          Warning := [other_msg ''w'' \<mapsto> ''old''], Information := [empty_input \<mapsto> ''old'']\<rparr>"]
  by (simp add: widget0_def)

text \<open>
  Claim C6.  \<open>save_file\<close> is \<open>save_file_as\<close> when the file name is empty and
  \<open>_try_save\<close> otherwise.  \<open>_try_save\<close> returns without calling a writer, and with
  \<open>general_error\<close> cleared, when there is no data or no file name; otherwise it calls
  the writer of the current filter once, on the current file name and data, and its
  outcome follows the writer's.  With a file name and no data, \<open>save_file\<close> calls no
  writer and returns.
\<close>

theorem save_file_cases:
  "(filename self = [] \<longrightarrow> save_file filters dlg self = save_file_as filters dlg self)
   \<and> (filename self \<noteq> [] \<longrightarrow> save_file filters dlg self = try_save filters self)
   \<and> (data self = None \<or> filename self = [] \<longrightarrow>
        try_save filters self = Return (self\<lparr>Error := (Error self)(general_error := None)\<rparr>))
   \<and> (data self \<noteq> None \<and> filename self \<noteq> [] \<and> map_of filters (filter' self) = Some w \<longrightarrow>
        try_save filters self =
          (let called = self\<lparr>Error := (Error self)(general_error := None),
                             write_calls := write_calls self @ [(filter' self, filename self, data self)]\<rparr>
           in case w (filename self) (data self) of
                None \<Rightarrow> Return called
              | Some (IOError m) \<Rightarrow> Return (called\<lparr>Error := (Error self)(general_error \<mapsto> m)\<rparr>)
              | Some e \<Rightarrow> Raise e called))
   \<and> (filename self \<noteq> [] \<and> data self = None \<longrightarrow>
        save_file filters dlg self = Return (self\<lparr>Error := (Error self)(general_error := None)\<rparr>) \<and>
        write_calls (state_of (save_file filters dlg self)) = write_calls self)"
  by (auto simp: save_defs save_file_def Let_def split: option.splits exc.splits)

text \<open>
  The theorem at a widget with a file name and no data, at one with a file name and
  data, and at one without a file name.
\<close>

theorem save_file_cases_witness:
  "save_file (registry (raising (IOError ''disk full''))) Rejected (widget0\<lparr>filename := ''out.tab''\<rparr>)
     = Return (widget0\<lparr>filename := ''out.tab''\<rparr>) \<and>
   save_file (registry (\<lambda>filename data. None)) Rejected
       (widget0\<lparr>filename := ''out.tab'', data := Some 7\<rparr>)
     = Return (widget0\<lparr>filename := ''out.tab'', data := Some 7,
                write_calls := [(''Tab-separated values (*.tab)'', ''out.tab'', Some 7)]\<rparr>) \<and>
   save_file (registry (\<lambda>filename data. None)) Rejected widget0
     = save_file_as (registry (\<lambda>filename data. None)) Rejected widget0"
  using save_file_cases[of "widget0\<lparr>filename := ''out.tab''\<rparr>"
      "registry (raising (IOError ''disk full''))" Rejected "raising (IOError ''disk full'')"]
    save_file_cases[of "widget0\<lparr>filename := ''out.tab'', data := Some 7\<rparr>"
      "registry (\<lambda>filename data. None)" Rejected "\<lambda>filename data. None"]
    save_file_cases[of widget0 "registry (\<lambda>filename data. None)" Rejected "\<lambda>filename data. None"]
  by (simp add: widget0_def registry_def)

text \<open>
  Claim C3.  When the writer of the current filter raises an \<^verbatim>\<open>IOError\<close> in a save
  with data and a file name, \<open>_try_save\<close> and \<open>save_file\<close> return, \<open>general_error\<close> is
  shown with the text of the exception, and \<open>filename\<close>, \<open>filter\<close> and \<open>auto_save\<close>
  are as before; the same holds when \<open>on_new_input\<close> starts the save with \<open>auto_save\<close>
  on.
\<close>

theorem try_save_IOError:
  assumes "data self \<noteq> None" and "filename self \<noteq> []"
    and "map_of filters (filter' self) = Some w"
    and "w (filename self) (data self) = Some (IOError m)"
  shows "try_save filters self =
           Return (self\<lparr>Error := (Error self)(general_error \<mapsto> m),
                        write_calls := write_calls self @ [(filter' self, filename self, data self)]\<rparr>)
       \<and> save_file filters dlg self = try_save filters self
       \<and> Error (state_of (save_file filters dlg self)) general_error = Some m
       \<and> filename (state_of (save_file filters dlg self)) = filename self
       \<and> filter' (state_of (save_file filters dlg self)) = filter' self
       \<and> auto_save (state_of (save_file filters dlg self)) = auto_save self
       \<and> (auto_save self \<longrightarrow>
           on_new_input filters dlg self =
             Return (self\<lparr>Error := [general_error \<mapsto> m], Warning := Map.empty,
                          Information := Map.empty,
                          write_calls := write_calls self @ [(filter' self, filename self, data self)]\<rparr>))"
  using assms
  by (auto simp: save_defs save_file_def on_new_input_def update_messages_def update_status_def Let_def)

text \<open>
  The theorem at a widget with auto save, the file name \<open>out.tab\<close> and data, whose
  writer raises.
\<close>

theorem try_save_IOError_witness:
  "on_new_input (registry (raising (IOError ''disk full''))) Rejected
      (widget0\<lparr>auto_save := True, filename := ''out.tab'', data := Some 7\<rparr>)
     = Return (widget0\<lparr>auto_save := True, filename := ''out.tab'', data := Some 7,
                 Error := [general_error \<mapsto> ''disk full''],
                 write_calls := [(''Tab-separated values (*.tab)'', ''out.tab'', Some 7)]\<rparr>)"
  using try_save_IOError[of "widget0\<lparr>auto_save := True, filename := ''out.tab'', data := Some 7\<rparr>"
      "registry (raising (IOError ''disk full''))" "raising (IOError ''disk full'')" "''disk full''" Rejected]
  by (simp add: widget0_def registry_def raising_def)

text \<open>
  Claim C10.  An exception of the writer that is not an \<^verbatim>\<open>IOError\<close> leaves
  \<open>_try_save\<close> and \<open>save_file\<close> as it is, with \<open>general_error\<close> cleared and not
  shown.  \<open>general_error\<close> is also cleared when the save is skipped for want of data.
\<close>

theorem try_save_other_exception:
  "(data self \<noteq> None \<and> filename self \<noteq> [] \<and> map_of filters (filter' self) = Some w \<and>
    w (filename self) (data self) = Some e \<and> (\<forall>m. e \<noteq> IOError m) \<longrightarrow>
      try_save filters self =
        Raise e (self\<lparr>Error := (Error self)(general_error := None),
                      write_calls := write_calls self @ [(filter' self, filename self, data self)]\<rparr>) \<and>
      save_file filters dlg self = try_save filters self \<and>
      Error (state_of (save_file filters dlg self)) general_error = None)
   \<and> (data self = None \<longrightarrow>
        try_save filters self = Return (self\<lparr>Error := (Error self)(general_error := None)\<rparr>) \<and>
        Error (state_of (try_save filters self)) general_error = None)"
  by (cases e) (auto simp: save_defs save_file_def Let_def)

text \<open>
  The theorem at a widget that shows an old \<open>general_error\<close>: with data and a writer
  that raises a \<^verbatim>\<open>ValueError\<close>, and without data.
\<close>

theorem try_save_other_exception_witness:
  "save_file (registry (raising (OtherException ''ValueError'' ''bad value''))) Rejected
      (widget0\<lparr>filename := ''out.tab'', data := Some 7, Error := [general_error \<mapsto> ''disk full'']\<rparr>)
     = Raise (OtherException ''ValueError'' ''bad value'')
         (widget0\<lparr>filename := ''out.tab'', data := Some 7, Error := Map.empty,
             write_calls := [(''Tab-separated values (*.tab)'', ''out.tab'', Some 7)]\<rparr>) \<and>
   try_save (registry (raising (OtherException ''ValueError'' ''bad value'')))
      (widget0\<lparr>filename := ''out.tab'', Error := [general_error \<mapsto> ''disk full'']\<rparr>)
     = Return (widget0\<lparr>filename := ''out.tab'', Error := Map.empty\<rparr>)"
  using try_save_other_exception[of
      "widget0\<lparr>filename := ''out.tab'', data := Some 7, Error := [general_error \<mapsto> ''disk full'']\<rparr>"
      "registry (raising (OtherException ''ValueError'' ''bad value''))"
      "raising (OtherException ''ValueError'' ''bad value'')"
      "OtherException ''ValueError'' ''bad value''" Rejected]
    try_save_other_exception[of
      "widget0\<lparr>filename := ''out.tab'', Error := [general_error \<mapsto> ''disk full'']\<rparr>"
      "registry (raising (OtherException ''ValueError'' ''bad value''))"
      "raising (OtherException ''ValueError'' ''bad value'')"
      "OtherException ''ValueError'' ''bad value''" Rejected]
  by (simp add: widget0_def registry_def raising_def)

text \<open>
  Claim C8.  When the file dialog is rejected, or returns an empty file name,
  \<open>save_file_as\<close> returns the widget as it was: \<open>filename\<close>, \<open>filter\<close> and \<open>last_dir\<close>
  are unchanged, no writer is called and no message changes.
\<close>

theorem save_file_as_cancelled:
  "get_save_filename Rejected = ([], []) \<and>
   (fst (get_save_filename dlg) = [] \<longrightarrow>
      save_file_as filters dlg self = Return self \<and>
      filename (state_of (save_file_as filters dlg self)) = filename self \<and>
      filter' (state_of (save_file_as filters dlg self)) = filter' self \<and>
      last_dir (state_of (save_file_as filters dlg self)) = last_dir self \<and>
      write_calls (state_of (save_file_as filters dlg self)) = write_calls self \<and>
      Error (state_of (save_file_as filters dlg self)) = Error self \<and>
      Warning (state_of (save_file_as filters dlg self)) = Warning self \<and>
      Information (state_of (save_file_as filters dlg self)) = Information self)"
  by (auto simp: get_save_filename_def save_file_as_def split: prod.splits)

text \<open>
  The theorem at a rejected dialog.
\<close>

theorem save_file_as_cancelled_witness:
  "save_file_as (registry (raising (IOError ''disk full''))) Rejected
      (widget0\<lparr>data := Some 7, last_dir := ''/tmp''\<rparr>)
     = Return (widget0\<lparr>data := Some 7, last_dir := ''/tmp''\<rparr>)"
  using save_file_as_cancelled[of Rejected "registry (raising (IOError ''disk full''))"
      "widget0\<lparr>data := Some 7, last_dir := ''/tmp''\<rparr>"]
  by simp

end
